theory Spec2Isabelle
  imports Main "HOL-Library.Word"
begin

unbundle bit_operations_syntax

section \<open>Errors, results and the operating system's answers\<close>

text \<open>
  The Go code talks to the kernel, to the standard library and to the fsnotify package.
  None of these is part of \<^verbatim>\<open>internal/tailer/file.go\<close>; they enter the model as
  data (the answer the kernel gives) or as parameters (path resolution), so that every
  theorem holds for every behaviour of the surroundings.

  \<open>oserr\<close> are the error values the surroundings hand to the code. \<open>EOF\<close> is Go's
  \<^verbatim>\<open>io.EOF\<close> sentinel, the others are errno values.
\<close>

datatype oserr = EOF | EACCES | EPERM | ENOENT | EBADF | ESPIPE | EIO | EINVAL | EAGAIN

text \<open>
  The errors the code itself builds with \<^verbatim>\<open>errors.Wrapf\<close> and \<^verbatim>\<open>errors.Errorf\<close>;
  one constructor per format string of the source. \<open>Sys\<close> is an error passed on as it came.
\<close>

datatype error =
    Sys oserr
  | StatFailed string oserr          \<comment> \<open>\<^verbatim>\<open>Failed to stat %q\<close>\<close>
  | SeekFailed string oserr          \<comment> \<open>\<^verbatim>\<open>Seek failed on %q\<close>\<close>
  | CantOpenMode "32 word" string    \<comment> \<open>\<^verbatim>\<open>Can't open files with mode %v: %s\<close>\<close>
  | NoSuchHandle int                 \<comment> \<open>\<^verbatim>\<open>no such event handle %d\<close>\<close>
  | AbsLookupFailed string oserr     \<comment> \<open>\<^verbatim>\<open>Failed to lookup absolutepath of %q\<close>\<close>
  | NewWatchFailed string oserr      \<comment> \<open>\<^verbatim>\<open>Failed to create a new watch on %q\<close>\<close>

text \<open>A Go run-time panic ends the call; the model returns it as a value.\<close>

datatype panic = NilDereference | IndexOutOfRange

datatype result = Success | Failure error | Panic panic

text \<open>\<^verbatim>\<open>os.IsPermission\<close>: true of the two permission errnos.\<close>

definition IsPermission :: "oserr \<Rightarrow> bool" where
  "IsPermission err = (err = EACCES \<or> err = EPERM)"

text \<open>
  \<^verbatim>\<open>filepath.Abs\<close> depends on the process's working directory and can fail; the model
  takes it as a parameter of this type. \<^verbatim>\<open>filepath.Dir\<close> is a parameter too.
\<close>

type_synonym absfun = "string \<Rightarrow> oserr + string"
type_synonym dirfun = "string \<Rightarrow> string"

section \<open>The watcher (package watcher)\<close>

datatype EventKind = Create | Update | Delete

datatype Event = Event (ev_Op: EventKind) (ev_Pathname: string)

text \<open>
  The fsnotify watcher is an external object. What the code needs of it: the set of paths
  it watches, and whether installing a watch on a path is refused (\<open>nw_refuse\<close>, the
  kernel's answer). Removing a watch that was never installed is an error in fsnotify.
\<close>

record native =
  nw_watches :: "string set"
  nw_refuse :: "string \<Rightarrow> oserr option"

definition fsnotify_Add :: "native \<Rightarrow> string \<Rightarrow> oserr option \<times> native" where
  "fsnotify_Add nw p =
     (case nw_refuse nw p of
        Some err \<Rightarrow> (Some err, nw)
      | None \<Rightarrow> (None, nw\<lparr>nw_watches := insert p (nw_watches nw)\<rparr>))"

definition fsnotify_Remove :: "native \<Rightarrow> string \<Rightarrow> oserr option \<times> native" where
  "fsnotify_Remove nw p =
     (if p \<in> nw_watches nw then (None, nw\<lparr>nw_watches := nw_watches nw - {p}\<rparr>)
      else (Some EINVAL, nw))"

text \<open>
  \<^verbatim>\<open>type LogWatcher struct\<close>. A Go channel is a reference: \<open>events\<close> and \<open>watched\<close>
  hold channel identities (natural numbers), and \<open>sent\<close> is the store that records, for
  each channel, the events sent on it in order. \<open>watcher = None\<close> is the nil pointer.
  The mutexes, the done channels and \<^verbatim>\<open>closeOnce\<close> only serve concurrency and are left out.
\<close>

record LogWatcher =
  watcher :: "native option"
  pollTicker :: "int option"
  events :: "nat list"
  watched :: "string \<rightharpoonup> nat"
  sent :: "nat \<Rightarrow> Event list"

definition Millisecond :: int where
  "Millisecond = 1000000"

text \<open>
  \<^verbatim>\<open>NewLogWatcher\<close>. \<open>fsn\<close> is what \<^verbatim>\<open>fsnotify.NewWatcher()\<close> answers when it is called.
  The two goroutines it starts are not modelled.
\<close>

definition NewLogWatcher :: "int \<Rightarrow> bool \<Rightarrow> oserr + native \<Rightarrow> error + LogWatcher" where
  "NewLogWatcher pollInterval enableFsnotify fsn =
     (let f = (if enableFsnotify
               then (case fsn of Inl err \<Rightarrow> None | Inr nw \<Rightarrow> Some nw)
               else None);
          pollInterval = (if f = None \<and> pollInterval = 0 then Millisecond * 250 else pollInterval)
      in Inr \<lparr> watcher = f,
               pollTicker = (if pollInterval > 0 then Some pollInterval else None),
               events = [],
               watched = Map.empty,
               sent = (\<lambda>_. []) \<rparr>)"

text \<open>
  \<^verbatim>\<open>Events\<close>: the handle is the length of the list; \<^verbatim>\<open>make(chan Event)\<close> allocates a
  channel nobody else holds, here the one identified by the same number.
\<close>

definition Events :: "LogWatcher \<Rightarrow> (int \<times> nat) \<times> LogWatcher" where
  "Events w =
     (let handle = int (length (events w));
          ch = length (events w)
      in ((handle, ch), w\<lparr>events := events w @ [ch]\<rparr>))"

text \<open>\<^verbatim>\<open>c <- e\<close>: the event is handed to the reader of channel \<open>c\<close>.\<close>

definition chan_send :: "nat \<Rightarrow> Event \<Rightarrow> LogWatcher \<Rightarrow> LogWatcher" where
  "chan_send c e w = w\<lparr>sent := (sent w)(c := sent w c @ [e])\<rparr>"

definition sendEvent :: "dirfun \<Rightarrow> Event \<Rightarrow> LogWatcher \<Rightarrow> LogWatcher" where
  "sendEvent Dir e w =
     (let r = watched w (ev_Pathname e);
          r = (if r = None then watched w (Dir (ev_Pathname e)) else r)
      in case r of
           Some c \<Rightarrow> chan_send c e w
         | None \<Rightarrow> w)"

definition IsWatching :: "absfun \<Rightarrow> LogWatcher \<Rightarrow> string \<Rightarrow> bool" where
  "IsWatching Abs w path =
     (case Abs path of
        Inl err \<Rightarrow> False
      | Inr absPath \<Rightarrow> watched w absPath \<noteq> None)"

text \<open>
  \<^verbatim>\<open>Add\<close>, statement by statement. \<^verbatim>\<open>w.watcher.Add(absPath)\<close> on a nil
  \<^verbatim>\<open>*fsnotify.Watcher\<close> dereferences the nil pointer inside fsnotify and panics;
  \<^verbatim>\<open>w.events[handle]\<close> panics when the index is negative or not below the length.
\<close>

definition Add :: "absfun \<Rightarrow> string \<Rightarrow> int \<Rightarrow> LogWatcher \<Rightarrow> result \<times> LogWatcher" where
  "Add Abs path handle w =
     (if handle > int (length (events w)) then (Failure (NoSuchHandle handle), w)
      else if IsWatching Abs w path then (Success, w)
      else case Abs path of
        Inl err \<Rightarrow> (Failure (AbsLookupFailed path err), w)
      | Inr absPath \<Rightarrow>
          (let (stop, w) =
             (if absPath = ''/dev'' then (None, w)
              else case watcher w of
                None \<Rightarrow> (Some (Panic NilDereference), w)
              | Some nw \<Rightarrow>
                  (case fsnotify_Add nw absPath of (err, nw) \<Rightarrow>
                     (case err of
                        Some err \<Rightarrow>
                          if IsPermission err then (None, w\<lparr>watcher := Some nw\<rparr>)
                          else (Some (Failure (NewWatchFailed absPath err)), w\<lparr>watcher := Some nw\<rparr>)
                      | None \<Rightarrow> (None, w\<lparr>watcher := Some nw\<rparr>))))
           in case stop of
                Some r \<Rightarrow> (r, w)
              | None \<Rightarrow>
                  if 0 \<le> handle \<and> nat handle < length (events w)
                  then (Success, w\<lparr>watched := (watched w)(absPath \<mapsto> events w ! nat handle)\<rparr>)
                  else (Panic IndexOutOfRange, w)))"

definition Remove :: "string \<Rightarrow> LogWatcher \<Rightarrow> result \<times> LogWatcher" where
  "Remove path w =
     (let w = w\<lparr>watched := (watched w)(path := None)\<rparr>
      in case watcher w of
           Some nw \<Rightarrow>
             (case fsnotify_Remove nw path of (err, nw) \<Rightarrow>
                (case err of
                   Some err \<Rightarrow> (Failure (Sys err), w\<lparr>watcher := Some nw\<rparr>)
                 | None \<Rightarrow> (Success, w\<lparr>watcher := Some nw\<rparr>)))
         | None \<Rightarrow> (Success, w))"

text \<open>
  Two fixed surroundings for the examples: a process whose working directory is
  \<^verbatim>\<open>/tmp\<close>, where \<^verbatim>\<open>filepath.Abs\<close> leaves a clean absolute path as it is and puts
  the working directory in front of a clean relative one; and \<^verbatim>\<open>filepath.Dir\<close> on clean
  absolute paths (everything before the last slash).
\<close>

definition abs_tmp :: absfun where
  "abs_tmp p = (if p \<noteq> [] \<and> hd p = CHR ''/'' then Inr p else Inr (''/tmp/'' @ p))"


definition poll_only :: LogWatcher where
  "poll_only = (case NewLogWatcher 0 False (Inl ENOENT) of Inr w \<Rightarrow> w)"

definition with_inotify :: LogWatcher where
  "with_inotify =
     (case NewLogWatcher 0 True (Inr \<lparr>nw_watches = {}, nw_refuse = (\<lambda>_. None)\<rparr>) of Inr w \<Rightarrow> w)"

section \<open>The kernel's files\<close>

type_synonym byte = "8 word"

datatype whence = SeekStart | SeekCurrent | SeekEnd

datatype syscall = SysRead | SysStat | SysSeek whence | SysClose




record FileInfo =
  fi_dev :: nat
  fi_ino :: nat
  fi_mode :: "32 word"
  fi_size :: nat

text \<open>
  An open descriptor (\<^verbatim>\<open>*os.File\<close>): the inode it refers to, the inode's bytes, the
  descriptor's offset, and the kernel's side of the conversation. \<open>short_reads\<close> lists
  how many bytes the next read calls deliver at most (a read with data left delivers at
  least one byte; when the list is used up a read fills the buffer). \<open>fault\<close> says which
  system calls on this descriptor fail, and with what.
\<close>

record osfile =
  dev :: nat
  ino :: nat
  mode :: "32 word"
  contents :: "byte list"
  offset :: nat
  short_reads :: "nat list"
  fault :: "syscall \<Rightarrow> oserr option"
  closed :: bool

definition os_Stat :: "osfile \<Rightarrow> oserr + FileInfo" where
  "os_Stat fd =
     (case fault fd SysStat of
        Some err \<Rightarrow> Inl err
      | None \<Rightarrow> Inr \<lparr> fi_dev = dev fd, fi_ino = ino fd, fi_mode = mode fd,
                       fi_size = length (contents fd) \<rparr>)"

definition os_Seek :: "nat \<Rightarrow> whence \<Rightarrow> osfile \<Rightarrow> (oserr + nat) \<times> osfile" where
  "os_Seek off wh fd =
     (case fault fd (SysSeek wh) of
        Some err \<Rightarrow> (Inl err, fd)
      | None \<Rightarrow>
          (let pos = (case wh of
                        SeekStart \<Rightarrow> off
                      | SeekCurrent \<Rightarrow> offset fd + off
                      | SeekEnd \<Rightarrow> length (contents fd) + off)
           in (Inr pos, fd\<lparr>offset := pos\<rparr>)))"

text \<open>\<^verbatim>\<open>f.Read(buf)\<close> with a buffer of \<open>cap\<close> bytes: the bytes read and the error.\<close>

definition os_Read :: "nat \<Rightarrow> osfile \<Rightarrow> (byte list \<times> oserr option) \<times> osfile" where
  "os_Read cap fd =
     (case fault fd SysRead of
        Some err \<Rightarrow> (([], Some err), fd)
      | None \<Rightarrow>
          (let k = (case short_reads fd of [] \<Rightarrow> cap | s # _ \<Rightarrow> min cap (max 1 s));
               data = take k (drop (offset fd) (contents fd))
           in if data = [] then (([], Some EOF), fd)
              else ((data, None),
                    fd\<lparr>offset := offset fd + length data,
                       short_reads := tl (short_reads fd)\<rparr>)))"

definition os_Close :: "osfile \<Rightarrow> oserr option \<times> osfile" where
  "os_Close fd = (fault fd SysClose, fd\<lparr>closed := True\<rparr>)"

text \<open>
  \<^verbatim>\<open>os.SameFile\<close> compares device and inode. A nil \<^verbatim>\<open>FileInfo\<close> (what a failed
  \<^verbatim>\<open>Stat\<close> returns) is not a \<^verbatim>\<open>*fileStat\<close>, and \<^verbatim>\<open>SameFile\<close> answers false for it.
\<close>

definition SameFile :: "FileInfo option \<Rightarrow> FileInfo option \<Rightarrow> bool" where
  "SameFile fi1 fi2 =
     (case (fi1, fi2) of
        (Some fs1, Some fs2) \<Rightarrow> fi_dev fs1 = fi_dev fs2 \<and> fi_ino fs1 = fi_ino fs2
      | _ \<Rightarrow> False)"

text \<open>
  Everything outside the \<^verbatim>\<open>File\<close> value: the four \<^verbatim>\<open>expvar\<close> maps, the clock, and the
  file system as the code sees it (\<open>opens p\<close>: the answers to the successive
  \<^verbatim>\<open>os.OpenFile\<close> calls on \<open>p\<close>, \<^verbatim>\<open>ENOENT\<close> once the list is used up; \<open>stats p\<close>: the
  answer to \<^verbatim>\<open>os.Stat(p)\<close>). \<open>trace\<close> records the open calls and the sleeps in order.
\<close>

datatype action = ActOpen string | ActSleep int

record env =
  logErrors :: "string \<Rightarrow> int"
  logRotations :: "string \<Rightarrow> int"
  logTruncs :: "string \<Rightarrow> int"
  lineCount :: "string \<Rightarrow> int"
  now :: int
  trace :: "action list"
  opens :: "string \<Rightarrow> (oserr + osfile) list"
  stats :: "string \<Rightarrow> oserr + FileInfo"

definition expvar_Add :: "(string \<Rightarrow> int) \<Rightarrow> string \<Rightarrow> int \<Rightarrow> (string \<Rightarrow> int)" where
  "expvar_Add m k d = m(k := m k + d)"

definition time_Sleep :: "int \<Rightarrow> env \<Rightarrow> env" where
  "time_Sleep d e = e\<lparr>now := now e + d, trace := trace e @ [ActSleep d]\<rparr>"

definition os_OpenFile :: "string \<Rightarrow> env \<Rightarrow> (oserr + osfile) \<times> env" where
  "os_OpenFile p e =
     (let e = e\<lparr>trace := trace e @ [ActOpen p]\<rparr>
      in case opens e p of
           [] \<Rightarrow> (Inl ENOENT, e)
         | r # rs \<Rightarrow> (r, e\<lparr>opens := (opens e)(p := rs)\<rparr>))"

section \<open>UTF-8 (package unicode/utf8)\<close>

text \<open>
  \<^verbatim>\<open>utf8.DecodeRune\<close> and \<^verbatim>\<open>utf8.EncodeRune\<close> of the Go standard library, with runes
  and byte values as natural numbers. The library's masks and shifts are written as
  arithmetic: \<^verbatim>\<open>x & 0x3F\<close> is \<open>x mod 64\<close>, \<^verbatim>\<open>x << 6\<close> is \<open>x * 64\<close>, \<^verbatim>\<open>x >> 6\<close> is
  \<open>x div 64\<close>, and \<^verbatim>\<open>|\<close> joins disjoint bit ranges, so it is \<open>+\<close>. The first byte
  decides the length and the range allowed for the second byte (the library's
  \<^verbatim>\<open>first\<close> and \<^verbatim>\<open>acceptRanges\<close> tables).
\<close>

definition RuneError :: nat where
  "RuneError = 0xFFFD"

fun DecodeRune :: "byte list \<Rightarrow> nat \<times> nat" where
  "DecodeRune [] = (RuneError, 0)"
| "DecodeRune (c0 # p) =
     (let p0 = unat c0 in
      if p0 < 0x80 then (p0, 1)
      else if p0 < 0xC2 \<or> 0xF4 < p0 then (RuneError, 1)
      else
        (let sz = (if p0 < 0xE0 then 2 else if p0 < 0xF0 then 3 else 4 :: nat);
             lo = (if p0 = 0xE0 then 0xA0 else if p0 = 0xF0 then 0x90 else 0x80);
             hi = (if p0 = 0xED then 0x9F else if p0 = 0xF4 then 0x8F else 0xBF)
         in if length (c0 # p) < sz then (RuneError, 1)
            else
              (let b1 = unat (p ! 0) in
               if b1 < lo \<or> hi < b1 then (RuneError, 1)
               else if sz \<le> 2 then (p0 mod 32 * 64 + b1 mod 64, 2)
               else
                 (let b2 = unat (p ! 1) in
                  if b2 < 0x80 \<or> 0xBF < b2 then (RuneError, 1)
                  else if sz \<le> 3
                  then (p0 mod 16 * 4096 + b1 mod 64 * 64 + b2 mod 64, 3)
                  else
                    (let b3 = unat (p ! 2) in
                     if b3 < 0x80 \<or> 0xBF < b3 then (RuneError, 1)
                     else (p0 mod 8 * 262144 + b1 mod 64 * 4096 + b2 mod 64 * 64
                             + b3 mod 64, 4))))))"

text \<open>
  The bytes \<^verbatim>\<open>bytes.Buffer.WriteRune\<close> appends: one byte below \<^verbatim>\<open>utf8.RuneSelf\<close>,
  \<^verbatim>\<open>utf8.EncodeRune\<close> otherwise, which writes \<^verbatim>\<open>RuneError\<close> for a surrogate or a value
  above \<^verbatim>\<open>MaxRune\<close>.
\<close>

definition EncodeRune :: "nat \<Rightarrow> byte list" where
  "EncodeRune r =
     (if r < 0x80 then [of_nat r]
      else if r \<le> 0x7FF then [of_nat (0xC0 + r div 64), of_nat (0x80 + r mod 64)]
      else
        (let r = (if r > 0x10FFFF \<or> (0xD800 \<le> r \<and> r \<le> 0xDFFF) then RuneError else r)
         in if r \<le> 0xFFFF
            then [of_nat (0xE0 + r div 4096), of_nat (0x80 + r div 64 mod 64),
                  of_nat (0x80 + r mod 64)]
            else [of_nat (0xF0 + r div 262144), of_nat (0x80 + r div 4096 mod 64),
                  of_nat (0x80 + r div 64 mod 64), of_nat (0x80 + r mod 64)]))"

section \<open>The tailed file (package tailer)\<close>

datatype LogLine = LogLine (Filename: string) (Line: "byte list")

text \<open>
  \<^verbatim>\<open>type File struct\<close>. \<open>lines\<close> is the output channel, as the list of the records
  sent on it. The methods read and write a field \<^verbatim>\<open>partialLock\<close> that the struct does
  not declare; it is a second boolean here, false in a new \<open>File\<close>.
\<close>

record File =
  Name :: string
  Pathname :: string
  LastRead :: int
  regular :: bool
  "file" :: osfile
  partial :: "byte list"
  lock :: bool
  partialLock :: bool
  lines :: "LogLine list"

text \<open>
  \<^verbatim>\<open>open\<close>: the \<^verbatim>\<open>Retry\<close> label and its \<^verbatim>\<open>goto\<close> are the recursion; \<open>retries\<close> and
  \<open>retryDelay\<close> are the two local variables, \<^verbatim>\<open>shouldRetry()\<close> is the condition.
\<close>

function open_Retry :: "int \<Rightarrow> int \<Rightarrow> string \<Rightarrow> bool \<Rightarrow> env \<Rightarrow> (oserr + osfile) \<times> env" where
  "open_Retry retries retryDelay pathname seenBefore e =
     (case os_OpenFile pathname e of (r, e) \<Rightarrow>
        (case r of
           Inl err \<Rightarrow>
             (let e = e\<lparr>logErrors := expvar_Add (logErrors e) pathname 1\<rparr>
              in if seenBefore \<and> retries > 0
                 then open_Retry (retries - 1) (retryDelay + retryDelay) pathname seenBefore
                        (time_Sleep retryDelay e)
                 else (Inl err, e))
         | Inr f \<Rightarrow> (Inr f, e)))"
  by pat_completeness auto
termination
  by (relation "measure (\<lambda>(retries, retryDelay, pathname, seenBefore, e). nat retries)") auto

declare open_Retry.simps [simp del]

definition openFile :: "string \<Rightarrow> bool \<Rightarrow> env \<Rightarrow> (oserr + osfile) \<times> env" where
  "openFile pathname seenBefore e = open_Retry 3 (1 * Millisecond) pathname seenBefore e"


definition waitForLock :: "File \<Rightarrow> env \<Rightarrow> env" where
  "waitForLock f e = (if partialLock f then time_Sleep (1 * Millisecond) e else e)"

definition sendLine :: "File \<Rightarrow> env \<Rightarrow> File \<times> env" where
  "sendLine f e =
     (let f = f\<lparr>partialLock := True\<rparr>;
          f = f\<lparr>lines := lines f @ [LogLine (Name f) (partial f)]\<rparr>;
          e = e\<lparr>lineCount := expvar_Add (lineCount e) (Name f) 1\<rparr>;
          f = f\<lparr>partial := []\<rparr>;
          f = f\<lparr>partialLock := False\<rparr>
      in (f, e))"

definition checkForTruncate :: "File \<Rightarrow> env \<Rightarrow> (bool \<times> oserr option) \<times> File \<times> env" where
  "checkForTruncate f e =
     (case os_Seek 0 SeekCurrent (file f) of (r, fd) \<Rightarrow>
        (let f = f\<lparr>file := fd\<rparr> in
         case r of
           Inl err \<Rightarrow> ((False, Some err), f, e)
         | Inr currentOffset \<Rightarrow>
             (case os_Stat (file f) of
                Inl err \<Rightarrow> ((False, Some err), f, e)
              | Inr fi \<Rightarrow>
                  if currentOffset = 0 \<or> fi_size fi \<ge> currentOffset
                  then ((False, None), f, e)
                  else
                    (let (f, e) = (if length (partial f) > 0 then sendLine f e else (f, e))
                     in case os_Seek 0 SeekStart (file f) of (p, fd) \<Rightarrow>
                          (let f = f\<lparr>file := fd\<rparr>;
                               serr = (case p of Inl serr \<Rightarrow> Some serr | Inr _ \<Rightarrow> None);
                               e = e\<lparr>logTruncs := expvar_Add (logTruncs e) (Name f) 1\<rparr>
                           in ((True, serr), f, e))))))"

text \<open>
  The inner loop of \<^verbatim>\<open>Read\<close>: \<^verbatim>\<open>for i := 0; i < len(b) && i < n; i += width\<close>, decoding
  one rune at \<^verbatim>\<open>b[i:]\<close> in each round.
\<close>

function decode_from :: "nat \<Rightarrow> nat \<Rightarrow> byte list \<Rightarrow> File \<Rightarrow> env \<Rightarrow> File \<times> env" where
  "decode_from i n b f e =
     (if i < length b \<and> i < n then
        (case DecodeRune (drop i b) of (rune, width) \<Rightarrow>
           (case (if rune \<noteq> 10
                  then (f\<lparr>partial := partial f @ EncodeRune rune\<rparr>, waitForLock f e)
                  else sendLine f e) of (f, e) \<Rightarrow>
              decode_from (i + width) n b f e))
      else (f, e))"
  by pat_completeness auto
termination
proof (relation "measure (\<lambda>(i, n, b, f, e). length b - i)")
  show "wf (measure (\<lambda>(i, n, b, f, e). length b - i))"
    by simp
next
  fix i n :: nat and b :: "byte list" and f :: File and e :: env
    and x :: "nat \<times> nat" and rune width :: nat and y :: "File \<times> env" and f' :: File and e' :: env
  assume in_range: "i < length b \<and> i < n"
    and dec: "(rune, width) = DecodeRune (drop i b)"
  from in_range obtain c cs where "drop i b = c # cs"
    by (cases "drop i b") auto
  with dec have "0 < width"
    by (auto simp: Let_def split: if_splits)
  with in_range
  show "((i + width, n, b, f', e'), (i, n, b, f, e)) \<in> measure (\<lambda>(i, n, b, f, e). length b - i)"
    by (simp add: diff_less_mono2)
qed

declare decode_from.simps [simp del]

text \<open>
  \<^verbatim>\<open>Read\<close>. The outer \<^verbatim>\<open>for\<close> has no bound of its own: it ends when a read call
  returns an error. \<open>None\<close> stands for a loop that never ends. A failing
  \<^verbatim>\<open>SetReadDeadline\<close> is only logged.
\<close>

partial_function (option) Read_loop ::
  "nat \<Rightarrow> File \<Rightarrow> env \<Rightarrow> (oserr option \<times> File \<times> env) option" where
  "Read_loop totalBytes f e =
     (let f = f\<lparr>lock := True\<rparr> in
      case os_Read 4096 (file f) of ((b, err), fd) \<Rightarrow>
        (let f = f\<lparr>file := fd\<rparr>;
             n = length b;
             totalBytes = totalBytes + n
         in case (if err = Some EOF \<and> totalBytes = 0 \<and> regular f
                  then checkForTruncate f e
                  else ((False, None), f, e)) of ((truncated, terr), f, e) \<Rightarrow>
              if truncated then Read_loop totalBytes f e
              else
                (case decode_from 0 n b f e of (f, e) \<Rightarrow>
                   (let f = f\<lparr>lock := False\<rparr> in
                    case err of
                      Some err \<Rightarrow>
                        Some (Some err,
                              (if totalBytes > 0 then f\<lparr>LastRead := now e\<rparr> else f), e)
                    | None \<Rightarrow> Read_loop totalBytes f e))))"

definition Read :: "File \<Rightarrow> env \<Rightarrow> (oserr option \<times> File \<times> env) option" where
  "Read f e = Read_loop 0 f e"

definition Close :: "File \<Rightarrow> env \<Rightarrow> oserr option \<times> File \<times> env" where
  "Close f e =
     (let (f, e) = (if length (partial f) > 0 then sendLine f e else (f, e))
      in case os_Close (file f) of (err, fd) \<Rightarrow> (err, f\<lparr>file := fd\<rparr>, e))"

definition doRotation :: "File \<Rightarrow> env \<Rightarrow> (oserr option \<times> File \<times> env) option" where
  "doRotation f e =
     (case Read f e of
        None \<Rightarrow> None
      | Some (err, f, e) \<Rightarrow>
          (let e = e\<lparr>logRotations := expvar_Add (logRotations e) (Name f) 1\<rparr>
           in case openFile (Pathname f) True e of (r, e) \<Rightarrow>
                (case r of
                   Inl err \<Rightarrow> Some (Some err, f, e)
                 | Inr newFile \<Rightarrow> Some (None, f\<lparr>file := newFile\<rparr>, e))))"

definition Follow :: "File \<Rightarrow> env \<Rightarrow> (oserr option \<times> File \<times> env) option" where
  "Follow f e =
     (let st = os_Stat (file f);
          s1 = (case st of Inl err \<Rightarrow> None | Inr fi \<Rightarrow> Some fi)
      in case (case st of Inl err \<Rightarrow> doRotation f e | Inr fi \<Rightarrow> Some (None, f, e)) of
           None \<Rightarrow> None
         | Some (Some err, f, e) \<Rightarrow> Some (Some err, f, e)
         | Some (None, f, e) \<Rightarrow>
             (case stats e (Pathname f) of
                Inl err \<Rightarrow> Some (None, f, e)
              | Inr s2 \<Rightarrow>
                  (case (if \<not> SameFile s1 (Some s2) then doRotation f e
                         else Some (None, f, e)) of
                     None \<Rightarrow> None
                   | Some (Some err, f, e) \<Rightarrow> Some (Some err, f, e)
                   | Some (None, f, e) \<Rightarrow>
                       if \<not> lock f then Read f e else Some (None, f, e))))"

section \<open>Tailing sessions and fixed surroundings for the file\<close>

text \<open>
  A writer appends the chunks \<open>cs\<close> to the inode, and the kernel hands them to the
  reader one chunk per read call.
\<close>

definition written :: "byte list list \<Rightarrow> File \<Rightarrow> File" where
  "written cs f =
     f\<lparr>file := (file f)\<lparr>contents := contents (file f) @ concat cs,
                          short_reads := map length cs\<rparr>\<rparr>"

text \<open>One \<^verbatim>\<open>Read\<close> pass after each batch of appended chunks.\<close>

fun tail_passes :: "byte list list list \<Rightarrow> File \<Rightarrow> env \<Rightarrow> (File \<times> env) option" where
  "tail_passes [] f e = Some (f, e)"
| "tail_passes (cs # css) f e =
     (case Read (written cs f) e of
        None \<Rightarrow> None
      | Some (err, f, e) \<Rightarrow> tail_passes css f e)"

definition emitted :: "(File \<times> env) option \<Rightarrow> LogLine list option" where
  "emitted r = map_option (\<lambda>(f, e). lines f) r"

text \<open>The text of a list of records with the newlines put back.\<close>

definition render :: "LogLine list \<Rightarrow> byte list" where
  "render ls = concat (map (\<lambda>l. Line l @ [10]) ls)"

definition utf8 :: "nat list \<Rightarrow> byte list" where
  "utf8 rs = concat (map EncodeRune rs)"

text \<open>
  What the consumer of the channel relies on: every record carries the file's name and a
  text without a newline byte, and the buffered segment holds no newline byte either.
\<close>

definition line_records :: "File \<Rightarrow> bool" where
  "line_records f =
     ((\<forall>l\<in>set (lines f). Filename l = Name f \<and> 10 \<notin> set (Line l)) \<and> 10 \<notin> set (partial f))"

text \<open>The Unicode scalar values: no surrogates, nothing above \<^verbatim>\<open>utf8.MaxRune\<close>.\<close>

definition valid_rune :: "nat \<Rightarrow> bool" where
  "valid_rune r = (r < 0xD800 \<or> (0xE000 \<le> r \<and> r \<le> 0x10FFFF))"

text \<open>
  An empty regular file on inode 1, an empty world, and the file \<^verbatim>\<open>/tmp/a.log\<close> tailed
  under the name \<^verbatim>\<open>a.log\<close>.
\<close>

definition fd0 :: osfile where
  "fd0 = \<lparr> dev = 1, ino = 1, mode = 0x1A4, contents = [], offset = 0, short_reads = [],
           fault = (\<lambda>_. None), closed = False \<rparr>"

definition env0 :: env where
  "env0 = \<lparr> logErrors = (\<lambda>_. 0), logRotations = (\<lambda>_. 0), logTruncs = (\<lambda>_. 0),
            lineCount = (\<lambda>_. 0), now = 0, trace = [], opens = (\<lambda>_. []),
            stats = (\<lambda>_. Inl ENOENT) \<rparr>"

definition file0 :: File where
  "file0 = \<lparr> Name = ''a.log'', Pathname = ''/tmp/a.log'', LastRead = 0, regular = True,
             file = fd0, partial = [], lock = False, partialLock = False, lines = [] \<rparr>"

text \<open>
  The order of events \<^verbatim>\<open>open\<close> goes through when every attempt fails: an attempt, then
  a sleep of 1ms, 2ms and 4ms before each of the three retries.
\<close>

definition retry_schedule :: "string \<Rightarrow> action list" where
  "retry_schedule p =
     [ActOpen p, ActSleep (1 * Millisecond), ActOpen p, ActSleep (2 * Millisecond),
      ActOpen p, ActSleep (4 * Millisecond), ActOpen p]"

text \<open>
  A descriptor that has become invalid (every system call on it fails), in a world where
  \<^verbatim>\<open>/tmp/a.log\<close> is a new inode holding the line \<^verbatim>\<open>x\<close>; and a file truncated to one
  byte below offset 5 whose descriptor refuses the seek back to the start.
\<close>

definition file_stale :: File where
  "file_stale = file0\<lparr>file := fd0\<lparr>fault := (\<lambda>_. Some EBADF)\<rparr>\<rparr>"

definition env_rotated :: env where
  "env_rotated =
     env0\<lparr>opens := (\<lambda>_. [Inr (fd0\<lparr>ino := 2, contents := [0x78, 0x0A]\<rparr>),
                          Inr (fd0\<lparr>ino := 2, contents := [0x78, 0x0A]\<rparr>)]),
          stats := (\<lambda>_. Inr \<lparr>fi_dev = 1, fi_ino = 2, fi_mode = 0x1A4, fi_size = 2\<rparr>)\<rparr>"


section \<open>Properties of the watcher\<close>



text \<open>
  C7. Once a first Add has registered a path under handle \<open>h1\<close>, a second Add of the same
  path with any handle that passes the handle check returns success and changes nothing:
  the path still maps to the channel of \<open>h1\<close>, and an event for the path is sent there.
\<close>

theorem Add_idempotent:
  assumes "\<not> IsWatching Abs w0 path"
    and "Add Abs path h1 w0 = (Success, w1)"
    and "h2 \<le> int (length (events w1))"
  shows "Add Abs path h2 w1 = (Success, w1) \<and>
         (\<exists>a. Abs path = Inr a \<and> watched w1 a = Some (events w0 ! nat h1) \<and>
              0 \<le> h1 \<and> nat h1 < length (events w0) \<and>
              sendEvent Dir (Event k a) w1 = chan_send (events w0 ! nat h1) (Event k a) w1)"
  using assms
  by (auto simp: Add_def IsWatching_def sendEvent_def fsnotify_Add_def Let_def
      split: if_splits sum.splits option.splits prod.splits)

theorem Add_idempotent_witness:
  "\<not> IsWatching abs_tmp (snd (Events (snd (Events with_inotify)))) ''/var/log/a.log'' \<and>
   fst (Add abs_tmp ''/var/log/a.log'' 0 (snd (Events (snd (Events with_inotify))))) = Success \<and>
   Add abs_tmp ''/var/log/a.log'' 1
     (snd (Add abs_tmp ''/var/log/a.log'' 0 (snd (Events (snd (Events with_inotify))))))
   = (Success, snd (Add abs_tmp ''/var/log/a.log'' 0 (snd (Events (snd (Events with_inotify))))))"
proof -
  let ?w0 = "snd (Events (snd (Events with_inotify)))"
  let ?w1 = "snd (Add abs_tmp ''/var/log/a.log'' 0 ?w0)"
  have fresh: "\<not> IsWatching abs_tmp ?w0 ''/var/log/a.log''"
    by (simp add: IsWatching_def Events_def NewLogWatcher_def with_inotify_def abs_tmp_def)
  have first: "Add abs_tmp ''/var/log/a.log'' 0 ?w0 = (Success, ?w1)"
    by (simp add: Add_def IsWatching_def Events_def NewLogWatcher_def with_inotify_def
        abs_tmp_def fsnotify_Add_def)
  have handle: "(1::int) \<le> int (length (events ?w1))"
    by (simp add: Add_def IsWatching_def Events_def NewLogWatcher_def with_inotify_def
        abs_tmp_def fsnotify_Add_def)
  have ok: "fst (Add abs_tmp ''/var/log/a.log'' 0 ?w0) = Success"
    by (simp add: Add_def IsWatching_def Events_def NewLogWatcher_def with_inotify_def
        abs_tmp_def fsnotify_Add_def)
  from Add_idempotent [OF fresh first handle] fresh ok show ?thesis
    by blast
qed

text \<open>
  C4. A watcher built without fsnotify has a nil \<open>watcher\<close>; Add of a fresh path with
  the handle that Events returned calls \<^verbatim>\<open>w.watcher.Add\<close> on it and panics. Nothing is
  recorded.
\<close>

theorem Add_poll_only_panics:
  "watcher poll_only = None \<and>
   fst (fst (Events poll_only)) = 0 \<and>
   Add abs_tmp ''/tmp/a.log'' 0 (snd (Events poll_only))
     = (Panic NilDereference, snd (Events poll_only))"
  by (simp add: Add_def IsWatching_def Events_def NewLogWatcher_def poll_only_def
      abs_tmp_def Millisecond_def)

text \<open>
  C5. With working directory \<^verbatim>\<open>/tmp\<close>, Add of the relative path \<^verbatim>\<open>a.log\<close> succeeds
  and registers \<^verbatim>\<open>/tmp/a.log\<close>; Remove of \<^verbatim>\<open>a.log\<close> deletes the key \<^verbatim>\<open>a.log\<close>, which
  was never there, and IsWatching still answers true.
\<close>

theorem Remove_relative_keeps_mapping:
  "fst (Add abs_tmp ''a.log'' 0 (snd (Events with_inotify))) = Success \<and>
   IsWatching abs_tmp
     (snd (Remove ''a.log'' (snd (Add abs_tmp ''a.log'' 0 (snd (Events with_inotify))))))
     ''a.log''"
  by (simp add: Add_def Remove_def IsWatching_def Events_def NewLogWatcher_def
      with_inotify_def abs_tmp_def fsnotify_Add_def fsnotify_Remove_def)

text \<open>
  C10. After one Events call the only handle issued is 0. Add with handle 1 (the length
  of the list) or with handle -1 passes the check \<^verbatim>\<open>handle > len(w.events)\<close>, installs the
  native watch and panics at \<^verbatim>\<open>w.events[handle]\<close>; only handle 2 gets the error.
\<close>

theorem Add_handle_check_off_by_one:
  "fst (Add abs_tmp ''/tmp/a.log'' 1 (snd (Events with_inotify))) = Panic IndexOutOfRange \<and>
   fst (Add abs_tmp ''/tmp/a.log'' (- 1) (snd (Events with_inotify))) = Panic IndexOutOfRange \<and>
   fst (Add abs_tmp ''/tmp/a.log'' 2 (snd (Events with_inotify))) = Failure (NoSuchHandle 2)"
  by (simp add: Add_def IsWatching_def Events_def NewLogWatcher_def
      with_inotify_def abs_tmp_def fsnotify_Add_def)

section \<open>Properties of the tailed file\<close>

lemmas file_defs = file0_def fd0_def env0_def written_def Read_def os_Read_def os_Stat_def os_Seek_def
  checkForTruncate_def sendLine_def waitForLock_def expvar_Add_def EncodeRune_def RuneError_def
  emitted_def Let_def

lemma open_Retry_no_retry:
  "open_Retry n d p False e =
     (case os_OpenFile p e of
        (Inl err, e') \<Rightarrow> (Inl err, e'\<lparr>logErrors := expvar_Add (logErrors e') p 1\<rparr>)
      | (Inr f, e') \<Rightarrow> (Inr f, e'))"
  by (simp add: open_Retry.simps [of n d p False e] split: prod.splits sum.splits)

lemma open_Retry_Inr:
  "opens e p = Inr f # rest \<Longrightarrow>
   open_Retry n d p sb e = (Inr f, e\<lparr>trace := trace e @ [ActOpen p], opens := (opens e)(p := rest)\<rparr>)"
  by (simp add: open_Retry.simps [of n d p sb e] os_OpenFile_def)

lemma open_Retry_Inl:
  "opens e p = Inl err # rest \<Longrightarrow> 0 < n \<Longrightarrow>
   open_Retry n d p True e =
     open_Retry (n - 1) (d + d) p True
       (time_Sleep d (e\<lparr>trace := trace e @ [ActOpen p], opens := (opens e)(p := rest),
                        logErrors := expvar_Add (logErrors e) p 1\<rparr>))"
  by (simp add: open_Retry.simps [of n d p True e] os_OpenFile_def)

lemma open_Retry_last:
  "opens e p = Inl err # rest \<Longrightarrow>
   open_Retry 0 d p sb e =
     (Inl err, e\<lparr>trace := trace e @ [ActOpen p], opens := (opens e)(p := rest),
                  logErrors := expvar_Add (logErrors e) p 1\<rparr>)"
  by (simp add: open_Retry.simps [of 0 d p sb e] os_OpenFile_def)

lemma open_Retry_attempts:
  "0 \<le> n \<Longrightarrow>
   \<exists>as. trace (snd (open_Retry n d p sb e)) = trace e @ as \<and>
        int (length (filter (\<lambda>a. a = ActOpen p) as)) \<le> n + 1"
proof (induction n d p sb e rule: open_Retry.induct)
  case (1 retries retryDelay pathname seenBefore e)
  obtain r e1 where o: "os_OpenFile pathname e = (r, e1)"
    by (cases "os_OpenFile pathname e")
  then have t1: "trace e1 = trace e @ [ActOpen pathname]"
    by (auto simp: os_OpenFile_def Let_def split: list.splits)
  show ?case
  proof (cases r)
    case (Inr f)
    with o t1 "1.prems" show ?thesis
      by (simp add: open_Retry.simps [of retries retryDelay pathname seenBefore e])
  next
    case (Inl err)
    let ?e2 = "e1\<lparr>logErrors := expvar_Add (logErrors e1) pathname 1\<rparr>"
    show ?thesis
    proof (cases "seenBefore \<and> retries > 0")
      case False
      with o t1 Inl "1.prems" show ?thesis
        by (auto simp: open_Retry.simps [of retries retryDelay pathname seenBefore e] Let_def)
    next
      case True
      with "1.IH" [OF o [symmetric] Inl refl] have
        "\<exists>as. trace (snd (open_Retry (retries - 1) (retryDelay + retryDelay) pathname seenBefore
                  (time_Sleep retryDelay ?e2)))
            = trace (time_Sleep retryDelay ?e2) @ as \<and>
            int (length (filter (\<lambda>a. a = ActOpen pathname) as)) \<le> retries - 1 + 1"
        by simp
      then obtain as where as:
        "trace (snd (open_Retry (retries - 1) (retryDelay + retryDelay) pathname seenBefore
                  (time_Sleep retryDelay ?e2)))
            = trace (time_Sleep retryDelay ?e2) @ as"
        "int (length (filter (\<lambda>a. a = ActOpen pathname) as)) \<le> retries"
        by auto
      have step: "open_Retry retries retryDelay pathname seenBefore e
            = open_Retry (retries - 1) (retryDelay + retryDelay) pathname seenBefore
                (time_Sleep retryDelay ?e2)"
        using True o Inl by (subst open_Retry.simps) (simp add: Let_def)
      have "trace (snd (open_Retry retries retryDelay pathname seenBefore e))
            = trace e @ (ActOpen pathname # ActSleep retryDelay # as)"
        unfolding step as(1) using t1 by (simp add: time_Sleep_def)
      moreover have "int (length (filter (\<lambda>a. a = ActOpen pathname)
          (ActOpen pathname # ActSleep retryDelay # as))) \<le> retries + 1"
        using as(2) by simp
      ultimately show ?thesis by blast
    qed
  qed
qed

text \<open>
  C8. With \<open>seenBefore\<close> set and the first four attempts failing, \<^verbatim>\<open>open\<close> makes exactly
  four attempts with sleeps of 1ms, 2ms and 4ms between them and returns the fourth
  error; if an attempt among the first four succeeds, it returns that file at once. No
  run makes more than four attempts. With \<open>seenBefore\<close> unset, a failed first attempt is
  returned after that one attempt, with no sleep.
\<close>

theorem open_retry_schedule:
  "(opens e p = Inl e1 # Inl e2 # Inl e3 # Inl e4 # rest \<longrightarrow>
      fst (openFile p True e) = Inl e4 \<and>
      trace (snd (openFile p True e)) = trace e @ retry_schedule p) \<and>
   (opens e p = map Inl errs @ Inr f # tail \<and> length errs \<le> 3 \<longrightarrow>
      fst (openFile p True e) = Inr f \<and>
      trace (snd (openFile p True e)) = trace e @ take (2 * length errs + 1) (retry_schedule p)) \<and>
   (\<exists>as. trace (snd (openFile p sb e)) = trace e @ as \<and>
         length (filter (\<lambda>a. a = ActOpen p) as) \<le> 4) \<and>
   (opens e p = Inl err # later \<longrightarrow>
      fst (openFile p False e) = Inl err \<and>
      trace (snd (openFile p False e)) = trace e @ [ActOpen p])"
proof (intro conjI impI)
  assume a: "opens e p = Inl e1 # Inl e2 # Inl e3 # Inl e4 # rest"
  show "fst (openFile p True e) = Inl e4"
    using a by (simp add: openFile_def open_Retry_Inl open_Retry_last time_Sleep_def)
  show "trace (snd (openFile p True e)) = trace e @ retry_schedule p"
    using a by (simp add: openFile_def open_Retry_Inl open_Retry_last time_Sleep_def
        retry_schedule_def)
next
  assume a: "opens e p = map Inl errs @ Inr f # tail \<and> length errs \<le> 3"
  then consider "errs = []" | x where "errs = [x]" | x y where "errs = [x, y]"
    | x y z where "errs = [x, y, z]"
    by (cases errs; cases "tl errs"; cases "tl (tl errs)"; cases "tl (tl (tl errs))") auto
  then have "fst (openFile p True e) = Inr f \<and>
      trace (snd (openFile p True e)) = trace e @ take (2 * length errs + 1) (retry_schedule p)"
    using a
    by cases (simp_all add: openFile_def open_Retry_Inl open_Retry_Inr time_Sleep_def
        retry_schedule_def)
  then show "fst (openFile p True e) = Inr f"
    and "trace (snd (openFile p True e)) = trace e @ take (2 * length errs + 1) (retry_schedule p)"
    by simp_all
next
  from open_Retry_attempts [of 3 "1 * Millisecond" p sb e]
  show "\<exists>as. trace (snd (openFile p sb e)) = trace e @ as \<and>
         length (filter (\<lambda>a. a = ActOpen p) as) \<le> 4"
    by (auto simp: openFile_def)
next
  assume a: "opens e p = Inl err # later"
  show "fst (openFile p False e) = Inl err"
    using a by (simp add: openFile_def open_Retry_no_retry os_OpenFile_def)
  show "trace (snd (openFile p False e)) = trace e @ [ActOpen p]"
    using a by (simp add: openFile_def open_Retry_no_retry os_OpenFile_def)
qed

theorem open_retry_schedule_witness:
  "fst (openFile ''/tmp/a.log'' True
          (env0\<lparr>opens := (\<lambda>_. [Inl ENOENT, Inl ENOENT, Inl ENOENT, Inl EACCES])\<rparr>)) = Inl EACCES \<and>
   trace (snd (openFile ''/tmp/a.log'' True
          (env0\<lparr>opens := (\<lambda>_. [Inl ENOENT, Inl ENOENT, Inl ENOENT, Inl EACCES])\<rparr>)))
     = [ActOpen ''/tmp/a.log'', ActSleep 1000000, ActOpen ''/tmp/a.log'', ActSleep 2000000,
        ActOpen ''/tmp/a.log'', ActSleep 4000000, ActOpen ''/tmp/a.log''] \<and>
   fst (openFile ''/tmp/a.log'' True (env0\<lparr>opens := (\<lambda>_. [Inl ENOENT, Inr fd0])\<rparr>)) = Inr fd0 \<and>
   trace (snd (openFile ''/tmp/a.log'' True (env0\<lparr>opens := (\<lambda>_. [Inl ENOENT, Inr fd0])\<rparr>)))
     = [ActOpen ''/tmp/a.log'', ActSleep 1000000, ActOpen ''/tmp/a.log''] \<and>
   fst (openFile ''/tmp/a.log'' False
          (env0\<lparr>opens := (\<lambda>_. [Inl ENOENT, Inl ENOENT, Inl ENOENT, Inl EACCES])\<rparr>)) = Inl ENOENT \<and>
   trace (snd (openFile ''/tmp/a.log'' False
          (env0\<lparr>opens := (\<lambda>_. [Inl ENOENT, Inl ENOENT, Inl ENOENT, Inl EACCES])\<rparr>)))
     = [ActOpen ''/tmp/a.log'']"
  using open_retry_schedule [where e = "env0\<lparr>opens := (\<lambda>_. [Inl ENOENT, Inl ENOENT, Inl ENOENT, Inl EACCES])\<rparr>"
      and p = "''/tmp/a.log''" and ?e1.0 = ENOENT and ?e2.0 = ENOENT and ?e3.0 = ENOENT
      and ?e4.0 = EACCES and rest = "[]" and err = ENOENT
      and later = "[Inl ENOENT, Inl ENOENT, Inl EACCES]"]
    open_retry_schedule [where e = "env0\<lparr>opens := (\<lambda>_. [Inl ENOENT, Inr fd0])\<rparr>"
      and p = "''/tmp/a.log''" and errs = "[ENOENT]" and f = fd0 and tail = "[]"]
  by (simp add: env0_def retry_schedule_def Millisecond_def)





lemma os_Seek_current [simp]:
  "fault fd (SysSeek SeekCurrent) = None \<Longrightarrow> os_Seek 0 SeekCurrent fd = (Inr (offset fd), fd)"
  by (simp add: os_Seek_def)

lemma decode_from_empty [simp]: "decode_from 0 0 [] f e = (f, e)"
  by (simp add: decode_from.simps)




text \<open>
  C2. The descriptor's \<^verbatim>\<open>Stat\<close> fails and the path holds a new inode with the line
  \<^verbatim>\<open>x\<close>. Follow rotates because of the failed \<^verbatim>\<open>Stat\<close>, then compares the nil
  \<^verbatim>\<open>FileInfo\<close> with the path's and rotates again: in this one call two rotations are
  counted, the path is opened twice, and the line is sent twice.
\<close>

theorem Follow_rotates_twice:
  "map_option (\<lambda>(err, f, e). (err, logRotations e ''a.log'', lines f, trace e))
     (Follow file_stale env_rotated)
   = Some (Some EOF, 2, [LogLine ''a.log'' [0x78], LogLine ''a.log'' [0x78]],
           [ActOpen ''/tmp/a.log'', ActOpen ''/tmp/a.log''])"
  by (simp add: Follow_def doRotation_def file_stale_def env_rotated_def SameFile_def
      openFile_def open_Retry.simps os_OpenFile_def file_defs Read_loop.simps decode_from.simps)

section \<open>Decoding what was encoded\<close>

text \<open>
  \<^verbatim>\<open>DecodeRune\<close> on the four shapes of a well-formed sequence, then on the output of
  \<^verbatim>\<open>EncodeRune\<close>: a scalar value comes back with the width of its encoding, whatever
  bytes follow it.
\<close>

lemma unat_byte: "n < 256 \<Longrightarrow> unat (of_nat n :: byte) = n"
  by (simp add: unat_of_nat)

lemma DecodeRune_two:
  assumes "0xC2 \<le> a" "a < 0xE0" "0x80 \<le> b" "b \<le> 0xBF"
  shows "DecodeRune (of_nat a # of_nat b # rest) = (a mod 32 * 64 + b mod 64, 2)"
proof -
  have ua: "unat (of_nat a :: byte) = a" and ub: "unat (of_nat b :: byte) = b"
    using assms by (simp_all add: unat_byte)
  show ?thesis using assms by (simp add: ua ub Let_def)
qed

lemma DecodeRune_three:
  assumes "0xE0 \<le> a" "a < 0xF0" "(if a = 0xE0 then 0xA0 else 0x80) \<le> b"
    "b \<le> (if a = 0xED then 0x9F else 0xBF)" "0x80 \<le> c" "c \<le> 0xBF"
  shows "DecodeRune (of_nat a # of_nat b # of_nat c # rest)
         = (a mod 16 * 4096 + b mod 64 * 64 + c mod 64, 3)"
proof -
  have ua: "unat (of_nat a :: byte) = a" and ub: "unat (of_nat b :: byte) = b"
    and uc: "unat (of_nat c :: byte) = c"
    using assms by (simp_all add: unat_byte split: if_splits)
  show ?thesis using assms by (simp add: ua ub uc Let_def split: if_splits)
qed

lemma DecodeRune_four:
  assumes "0xF0 \<le> a" "a \<le> 0xF4" "(if a = 0xF0 then 0x90 else 0x80) \<le> b"
    "b \<le> (if a = 0xF4 then 0x8F else 0xBF)" "0x80 \<le> c" "c \<le> 0xBF" "0x80 \<le> d" "d \<le> 0xBF"
  shows "DecodeRune (of_nat a # of_nat b # of_nat c # of_nat d # rest)
         = (a mod 8 * 262144 + b mod 64 * 4096 + c mod 64 * 64 + d mod 64, 4)"
proof -
  have ua: "unat (of_nat a :: byte) = a" and ub: "unat (of_nat b :: byte) = b"
    and uc: "unat (of_nat c :: byte) = c" and ud: "unat (of_nat d :: byte) = d"
    using assms by (simp_all add: unat_byte split: if_splits)
  show ?thesis using assms by (simp add: ua ub uc ud Let_def split: if_splits)
qed

lemma DecodeRune_one: "a < 0x80 \<Longrightarrow> DecodeRune (of_nat a # rest) = (a, 1)"
  by (simp add: unat_byte)

declare DecodeRune.simps [simp del]

lemma mod_shift: "q < k \<Longrightarrow> (j * k + q) mod k = (q::nat)"
  by simp

lemma roundtrip_one:
  assumes "r < 0x80"
  shows "DecodeRune (EncodeRune r @ rest) = (r, length (EncodeRune r))"
  using assms by (simp add: EncodeRune_def DecodeRune_one)

lemma roundtrip_two:
  assumes "0x80 \<le> r" "r \<le> 0x7FF"
  shows "DecodeRune (EncodeRune r @ rest) = (r, length (EncodeRune r))"
proof -
  define q m where "q = r div 64" and "m = r mod 64"
  have r: "q * 64 + m = r" and m: "m < 64"
    by (simp_all add: q_def m_def)
  from r m assms have q: "2 \<le> q" "q < 32"
    by linarith+
  have enc: "EncodeRune r = [of_nat (0xC0 + q), of_nat (0x80 + m)]"
    using assms by (simp add: EncodeRune_def q_def m_def)
  have a: "(0xC0 + q) mod 32 = q"
    using mod_shift [of q 32 6] q by simp
  have b: "(0x80 + m) mod 64 = m"
    using mod_shift [of m 64 2] m by simp
  have "DecodeRune (of_nat (0xC0 + q) # of_nat (0x80 + m) # rest)
      = ((0xC0 + q) mod 32 * 64 + (0x80 + m) mod 64, 2)"
    using q m by (intro DecodeRune_two) linarith+
  then show ?thesis
    by (simp add: enc a b r)
qed

lemma roundtrip_three:
  assumes "0x800 \<le> r" "r \<le> 0xFFFF" "r < 0xD800 \<or> 0xE000 \<le> r"
  shows "DecodeRune (EncodeRune r @ rest) = (r, length (EncodeRune r))"
proof -
  define q1 m1 q2 m2 where "q1 = r div 64" and "m1 = r mod 64"
    and "q2 = q1 div 64" and "m2 = q1 mod 64"
  have r: "q1 * 64 + m1 = r" and m1: "m1 < 64" and q1: "q2 * 64 + m2 = q1" and m2: "m2 < 64"
    by (simp_all add: q1_def m1_def q2_def m2_def)
  have d: "r div 4096 = q2"
    by (simp add: q2_def q1_def div_mult2_eq [symmetric])
  from r m1 q1 m2 assms have q2: "q2 < 16"
    by linarith
  have enc: "EncodeRune r = [of_nat (0xE0 + q2), of_nat (0x80 + m2), of_nat (0x80 + m1)]"
    using assms(1,2,3) by (auto simp: EncodeRune_def d q1_def [symmetric] m1_def [symmetric]
        m2_def [symmetric])
  have a: "(0xE0 + q2) mod 16 = q2"
    using mod_shift [of q2 16 14] q2 by simp
  have b: "(0x80 + m2) mod 64 = m2"
    using mod_shift [of m2 64 2] m2 by simp
  have c: "(0x80 + m1) mod 64 = m1"
    using mod_shift [of m1 64 2] m1 by simp
  have lo: "(if 0xE0 + q2 = 0xE0 then 0xA0 else 0x80) \<le> 0x80 + m2"
    using r m1 q1 m2 assms by (auto split: if_splits)
  have hi: "0x80 + m2 \<le> (if 0xE0 + q2 = 0xED then 0x9F else 0xBF)"
    using r m1 q1 m2 assms by (auto split: if_splits)
  have "DecodeRune (of_nat (0xE0 + q2) # of_nat (0x80 + m2) # of_nat (0x80 + m1) # rest)
      = ((0xE0 + q2) mod 16 * 4096 + (0x80 + m2) mod 64 * 64 + (0x80 + m1) mod 64, 3)"
    using q2 m1 lo hi by (intro DecodeRune_three) linarith+
  moreover have "q2 * 4096 + m2 * 64 + m1 = r"
    using r q1 by linarith
  ultimately show ?thesis
    by (simp add: enc a b c)
qed

lemma roundtrip_four:
  assumes "0x10000 \<le> r" "r \<le> 0x10FFFF"
  shows "DecodeRune (EncodeRune r @ rest) = (r, length (EncodeRune r))"
proof -
  define q1 m1 q2 m2 q3 m3 where "q1 = r div 64" and "m1 = r mod 64"
    and "q2 = q1 div 64" and "m2 = q1 mod 64" and "q3 = q2 div 64" and "m3 = q2 mod 64"
  have r: "q1 * 64 + m1 = r" and m1: "m1 < 64" and q1: "q2 * 64 + m2 = q1" and m2: "m2 < 64"
    and q2: "q3 * 64 + m3 = q2" and m3: "m3 < 64"
    by (simp_all add: q1_def m1_def q2_def m2_def q3_def m3_def)
  have d2: "r div 4096 = q2"
    by (simp add: q2_def q1_def div_mult2_eq [symmetric])
  have d3: "r div 262144 = q3"
    by (simp add: q3_def q2_def q1_def div_mult2_eq [symmetric])
  from r m1 q1 m2 q2 m3 assms have q3: "q3 \<le> 4"
    by linarith
  have enc: "EncodeRune r = [of_nat (0xF0 + q3), of_nat (0x80 + m3), of_nat (0x80 + m2),
      of_nat (0x80 + m1)]"
    using assms by (auto simp: EncodeRune_def d2 d3 q1_def [symmetric] m1_def [symmetric]
        m2_def [symmetric] m3_def [symmetric])
  have a: "(0xF0 + q3) mod 8 = q3"
    using mod_shift [of q3 8 30] q3 by simp
  have b: "(0x80 + m3) mod 64 = m3"
    using mod_shift [of m3 64 2] m3 by simp
  have c: "(0x80 + m2) mod 64 = m2"
    using mod_shift [of m2 64 2] m2 by simp
  have d: "(0x80 + m1) mod 64 = m1"
    using mod_shift [of m1 64 2] m1 by simp
  have lo: "(if 0xF0 + q3 = 0xF0 then 0x90 else 0x80) \<le> 0x80 + m3"
    using r m1 q1 m2 q2 m3 assms by (auto split: if_splits)
  have hi: "0x80 + m3 \<le> (if 0xF0 + q3 = 0xF4 then 0x8F else 0xBF)"
    using r m1 q1 m2 q2 m3 assms by (auto split: if_splits)
  have "DecodeRune (of_nat (0xF0 + q3) # of_nat (0x80 + m3) # of_nat (0x80 + m2)
          # of_nat (0x80 + m1) # rest)
      = ((0xF0 + q3) mod 8 * 262144 + (0x80 + m3) mod 64 * 4096 + (0x80 + m2) mod 64 * 64
          + (0x80 + m1) mod 64, 4)"
    using q3 m1 m2 lo hi by (intro DecodeRune_four) linarith+
  moreover have "q3 * 262144 + m3 * 4096 + m2 * 64 + m1 = r"
    using r q1 q2 by linarith
  ultimately show ?thesis
    by (simp add: enc a b c d)
qed

lemma DecodeRune_EncodeRune:
  assumes "valid_rune r"
  shows "DecodeRune (EncodeRune r @ rest) = (r, length (EncodeRune r))"
proof -
  consider "r < 0x80" | "0x80 \<le> r" "r \<le> 0x7FF" | "0x800 \<le> r" "r \<le> 0xFFFF" | "0x10000 \<le> r"
    by linarith
  then show ?thesis
  proof cases
    case 1 then show ?thesis by (rule roundtrip_one)
  next
    case 2 then show ?thesis by (rule roundtrip_two)
  next
    case 3 with assms show ?thesis by (intro roundtrip_three) (auto simp: valid_rune_def)
  next
    case 4 with assms show ?thesis by (intro roundtrip_four) (auto simp: valid_rune_def)
  qed
qed

section \<open>A read pass over whole codepoints\<close>

lemma EncodeRune_nonempty: "EncodeRune r \<noteq> []"
  by (simp add: EncodeRune_def Let_def)

lemma EncodeRune_newline: "EncodeRune 10 = [10]"
  by (simp add: EncodeRune_def)

lemma render_snoc: "render (ls @ [l]) = render ls @ Line l @ [10]"
  by (simp add: render_def)

lemma utf8_Cons: "utf8 (r # rs) = EncodeRune r @ utf8 rs"
  by (simp add: utf8_def)

lemma utf8_append: "utf8 (rs @ ss) = utf8 rs @ utf8 ss"
  by (simp add: utf8_def)

lemma byte_high_not_newline:
  assumes "128 \<le> x" "x < 256"
  shows "(of_nat x :: byte) \<noteq> 10"
proof
  assume "(of_nat x :: byte) = 10"
  then have "unat (of_nat x :: byte) = unat (10 :: byte)"
    by simp
  with assms show False
    by (simp add: unat_byte)
qed

lemma EncodeRune_no_newline:
  assumes "r \<noteq> 10"
  shows "10 \<notin> set (EncodeRune r)"
proof -
  have cont: "(of_nat (128 + q mod 64) :: byte) \<noteq> 10" for q :: nat
  proof (rule byte_high_not_newline)
    have "q mod 64 < 64" by simp
    then show "128 + q mod 64 < 256" by linarith
  qed simp
  consider (one) "r < 128" | (two) "128 \<le> r" "r \<le> 2047"
    | (bad) "2047 < r" "1114111 < r \<or> (55296 \<le> r \<and> r \<le> 57343)"
    | (three) "2047 < r" "r \<le> 65535" "\<not> (55296 \<le> r \<and> r \<le> 57343)"
    | (four) "65535 < r" "r \<le> 1114111"
    by linarith
  then show ?thesis
  proof cases
    case one
    have "(of_nat r :: byte) \<noteq> 10"
    proof
      assume "(of_nat r :: byte) = 10"
      then have "unat (of_nat r :: byte) = unat (10 :: byte)"
        by simp
      with one assms show False
        by (simp add: unat_byte)
    qed
    with one show ?thesis
      by (simp add: EncodeRune_def)
  next
    case two
    have enc: "EncodeRune r = [of_nat (192 + r div 64), of_nat (128 + r mod 64)]"
      using two by (simp add: EncodeRune_def del: of_nat_add)
    have "(of_nat (192 + r div 64) :: byte) \<noteq> 10"
      using two by (intro byte_high_not_newline) arith+
    with cont [of r] show ?thesis
      unfolding enc by (simp del: of_nat_add)
  next
    case bad
    then have "EncodeRune r = [239, 191, 189]"
      by (auto simp: EncodeRune_def RuneError_def)
    then show ?thesis
      by simp
  next
    case three
    have enc: "EncodeRune r = [of_nat (224 + r div 4096), of_nat (128 + r div 64 mod 64),
        of_nat (128 + r mod 64)]"
      using three by (auto simp: EncodeRune_def simp del: of_nat_add)
    have "(of_nat (224 + r div 4096) :: byte) \<noteq> 10"
      using three by (intro byte_high_not_newline) arith+
    with cont [of r] cont [of "r div 64"] show ?thesis
      unfolding enc by (simp del: of_nat_add)
  next
    case four
    have enc: "EncodeRune r = [of_nat (240 + r div 262144), of_nat (128 + r div 4096 mod 64),
        of_nat (128 + r div 64 mod 64), of_nat (128 + r mod 64)]"
      using four by (auto simp: EncodeRune_def simp del: of_nat_add)
    have "(of_nat (240 + r div 262144) :: byte) \<noteq> 10"
      using four by (intro byte_high_not_newline) arith+
    with cont [of r] cont [of "r div 64"] cont [of "r div 4096"] show ?thesis
      unfolding enc by (simp del: of_nat_add)
  qed
qed

lemma decode_from_done: "length b \<le> i \<Longrightarrow> decode_from i n b f e = (f, e)"
  by (simp add: decode_from.simps)

lemma decode_from_utf8:
  assumes "\<forall>r\<in>set rs. valid_rune r" and "drop i b = utf8 rs" and "length b \<le> n"
  shows "\<exists>f' e'. decode_from i n b f e = (f', e') \<and>
           render (lines f') @ partial f' = render (lines f) @ partial f @ utf8 rs \<and>
           file f' = file f \<and> regular f' = regular f \<and> Name f' = Name f \<and>
           LastRead f' = LastRead f \<and> (line_records f \<longrightarrow> line_records f')"
  using assms
proof (induction rs arbitrary: i f e)
  case Nil
  then have "length b \<le> i"
    by (simp add: utf8_def)
  then show ?case
    by (simp add: decode_from_done utf8_def)
next
  case (Cons r rs)
  let ?w = "length (EncodeRune r)"
  from Cons.prems have d: "drop i b = EncodeRune r @ utf8 rs"
    by (simp add: utf8_Cons)
  with EncodeRune_nonempty [of r] have i: "i < length b"
    by (cases "i < length b") auto
  from Cons.prems have v: "valid_rune r"
    by simp
  have dec: "DecodeRune (drop i b) = (r, ?w)"
    unfolding d using v by (rule DecodeRune_EncodeRune)
  have rest: "drop (i + ?w) b = utf8 rs"
    using d by (metis add.commute append_eq_conv_conj drop_drop)
  obtain f1 e1 where s: "(if r \<noteq> 10
                  then (f\<lparr>partial := partial f @ EncodeRune r\<rparr>, waitForLock f e)
                  else sendLine f e) = (f1, e1)"
    by force
  have step: "decode_from i n b f e = decode_from (i + ?w) n b f1 e1"
    using i Cons.prems(3) dec s by (subst decode_from.simps) simp
  have one: "render (lines f1) @ partial f1 = render (lines f) @ partial f @ EncodeRune r \<and>
      file f1 = file f \<and> regular f1 = regular f \<and> Name f1 = Name f \<and> LastRead f1 = LastRead f"
    using s by (auto simp: sendLine_def Let_def render_snoc EncodeRune_newline split: if_splits)
  have keep: "line_records f \<longrightarrow> line_records f1"
    using s EncodeRune_no_newline [of r]
    by (auto simp: sendLine_def Let_def line_records_def split: if_splits)
  from Cons.IH [of "i + ?w" f1 e1] Cons.prems rest
  obtain f' e' where r: "decode_from (i + ?w) n b f1 e1 = (f', e')"
    "render (lines f') @ partial f' = render (lines f1) @ partial f1 @ utf8 rs"
    "file f' = file f1" "regular f' = regular f1" "Name f' = Name f1"
    "LastRead f' = LastRead f1" "line_records f1 \<longrightarrow> line_records f'"
    by auto
  show ?case
    using step r one keep by (simp add: utf8_Cons)
qed

lemma line_records_frame [simp]:
  "line_records (f\<lparr>lock := b\<rparr>) = line_records f"
  "line_records (f\<lparr>file := fd\<rparr>) = line_records f"
  "line_records (f\<lparr>LastRead := t\<rparr>) = line_records f"
  by (simp_all add: line_records_def)

lemma checkForTruncate_not_truncated:
  "fault (file g) (SysSeek SeekCurrent) = None \<Longrightarrow> fault (file g) SysStat = None \<Longrightarrow>
   offset (file g) \<le> length (contents (file g)) \<Longrightarrow>
   checkForTruncate g e = ((False, None), g, e)"
  by (simp add: checkForTruncate_def os_Seek_def os_Stat_def)

lemma Read_loop_chunks:
  assumes "fault (file f) = (\<lambda>_. None)"
    and "\<forall>rs\<in>set rss. rs \<noteq> [] \<and> (\<forall>r\<in>set rs. valid_rune r) \<and> length (utf8 rs) \<le> 4096"
    and "drop (offset (file f)) (contents (file f)) = concat (map utf8 rss)"
    and "short_reads (file f) = map (length \<circ> utf8) rss"
    and "offset (file f) \<le> length (contents (file f))"
  shows "\<exists>f' e'. Read_loop t f e = Some (Some EOF, f', e') \<and>
           render (lines f') @ partial f' = render (lines f) @ partial f @ utf8 (concat rss) \<and>
           contents (file f') = contents (file f) \<and>
           offset (file f') = length (contents (file f)) \<and>
           fault (file f') = (\<lambda>_. None) \<and>
           regular f' = regular f \<and> Name f' = Name f \<and>
           (line_records f \<longrightarrow> line_records f')"
  using assms
proof (induction rss arbitrary: t f e)
  case Nil
  let ?g = "f\<lparr>lock := True\<rparr>"
  from Nil.prems have at_end: "offset (file f) = length (contents (file f))"
    by simp
  have rd: "os_Read 4096 (file f) = (([], Some EOF), file f)"
    using Nil.prems by (simp add: os_Read_def)
  have "Read_loop t f e = Some (Some EOF, (if t > 0 then f\<lparr>lock := False, LastRead := now e\<rparr>
                                           else f\<lparr>lock := False\<rparr>), e)"
    using Nil.prems(1,5)
    by (subst Read_loop.simps) (simp add: rd checkForTruncate_not_truncated Let_def decode_from_done)
  then show ?case
    using at_end Nil.prems(1) by (simp add: utf8_def)
next
  case (Cons rs rss)
  let ?g = "f\<lparr>lock := True\<rparr>"
  let ?c = "utf8 rs"
  let ?fd = "(file f)\<lparr>offset := offset (file f) + length ?c,
                       short_reads := map (length \<circ> utf8) rss\<rparr>"
  from Cons.prems(2) have rs: "rs \<noteq> []" "\<forall>r\<in>set rs. valid_rune r" "length ?c \<le> 4096"
    by simp_all
  from rs(1) have ne: "?c \<noteq> []"
    by (cases rs) (simp_all add: utf8_Cons EncodeRune_nonempty)
  then have len: "0 < length ?c"
    by simp
  from Cons.prems(3) have rem: "drop (offset (file f)) (contents (file f)) = ?c @ concat (map utf8 rss)"
    by simp
  have k: "min 4096 (max (Suc 0) (length ?c)) = length ?c"
    using rs(3) len by (simp add: max_def min_def Suc_le_eq)
  have rd: "os_Read 4096 (file f) = ((?c, None), ?fd)"
    using Cons.prems(1,4) ne by (simp add: os_Read_def rem k Let_def)
  let ?h = "f\<lparr>lock := True, file := ?fd\<rparr>"
  from decode_from_utf8 [of rs 0 ?c "length ?c" ?h e] rs(2)
  obtain f1 e1 where d: "decode_from 0 (length ?c) ?c ?h e = (f1, e1)"
    "render (lines f1) @ partial f1 = render (lines f) @ partial f @ ?c"
    "file f1 = ?fd" "regular f1 = regular f" "Name f1 = Name f"
    "line_records f \<longrightarrow> line_records f1"
    by auto
  let ?f2 = "f1\<lparr>lock := False\<rparr>"
  have step: "Read_loop t f e = Read_loop (t + length ?c) ?f2 e1"
    by (subst Read_loop.simps) (simp add: rd Let_def d(1))
  have rest: "drop (offset (file ?f2)) (contents (file ?f2)) = concat (map utf8 rss)"
    using rem d(3) by (simp add: add.commute [of "offset (file f)"] drop_drop [symmetric]
        del: drop_drop)
  have bound: "offset (file ?f2) \<le> length (contents (file ?f2))"
  proof -
    have "length (drop (offset (file f)) (contents (file f))) \<ge> length ?c"
      unfolding rem by simp
    then show ?thesis
      using d(3) Cons.prems(5) by simp
  qed
  from Cons.IH [of ?f2 "t + length ?c" e1] Cons.prems(1,2) rest bound d(3)
  obtain f' e' where r: "Read_loop (t + length ?c) ?f2 e1 = Some (Some EOF, f', e')"
    "render (lines f') @ partial f' = render (lines ?f2) @ partial ?f2 @ utf8 (concat rss)"
    "contents (file f') = contents (file ?f2)"
    "offset (file f') = length (contents (file ?f2))"
    "fault (file f') = (\<lambda>_. None)" "regular f' = regular ?f2" "Name f' = Name ?f2"
    "line_records ?f2 \<longrightarrow> line_records f'"
    by auto
  show ?case
    using step r d by (simp add: utf8_append)
qed

lemma tail_passes_utf8:
  assumes "fault (file f) = (\<lambda>_. None)"
    and "offset (file f) = length (contents (file f))"
    and "\<forall>rss\<in>set passes. \<forall>rs\<in>set rss.
           rs \<noteq> [] \<and> (\<forall>r\<in>set rs. valid_rune r) \<and> length (utf8 rs) \<le> 4096"
  shows "\<exists>f' e'. tail_passes (map (map utf8) passes) f e = Some (f', e') \<and>
           render (lines f') @ partial f' =
             render (lines f) @ partial f @ utf8 (concat (concat passes)) \<and>
           Name f' = Name f \<and> (line_records f \<longrightarrow> line_records f')"
  using assms
proof (induction passes arbitrary: f e)
  case Nil
  then show ?case
    by (simp add: utf8_def)
next
  case (Cons rss passes)
  let ?g = "written (map utf8 rss) f"
  have g: "fault (file ?g) = (\<lambda>_. None)"
    "drop (offset (file ?g)) (contents (file ?g)) = concat (map utf8 rss)"
    "short_reads (file ?g) = map (length \<circ> utf8) rss"
    "offset (file ?g) \<le> length (contents (file ?g))"
    "lines ?g = lines f" "partial ?g = partial f" "Name ?g = Name f"
    "line_records ?g = line_records f"
    using Cons.prems(1,2) by (simp_all add: written_def line_records_def)
  from Cons.prems(3) have chunks:
    "\<forall>rs\<in>set rss. rs \<noteq> [] \<and> (\<forall>r\<in>set rs. valid_rune r) \<and> length (utf8 rs) \<le> 4096"
    by simp
  from Read_loop_chunks [OF g(1) chunks g(2) g(3) g(4), of 0 e]
  obtain f1 e1 where r1: "Read ?g e = Some (Some EOF, f1, e1)"
    "render (lines f1) @ partial f1 = render (lines f) @ partial f @ utf8 (concat rss)"
    "offset (file f1) = length (contents (file f1))" "fault (file f1) = (\<lambda>_. None)"
    "Name f1 = Name f" "line_records f \<longrightarrow> line_records f1"
    unfolding Read_def g(5-8) by auto
  from Cons.IH [OF r1(4) r1(3), of e1] Cons.prems(3)
  obtain f' e' where r2: "tail_passes (map (map utf8) passes) f1 e1 = Some (f', e')"
    "render (lines f') @ partial f' =
       render (lines f1) @ partial f1 @ utf8 (concat (concat passes))"
    "Name f' = Name f1" "line_records f1 \<longrightarrow> line_records f'"
    by auto
  show ?case
    using r1 r2 by (simp add: utf8_append)
qed

lemma Close_flushes:
  "lines (fst (snd (Close f e)))
     = lines f @ (if partial f = [] then [] else [LogLine (Name f) (partial f)]) \<and>
   partial (fst (snd (Close f e))) = [] \<and>
   closed (file (fst (snd (Close f e))))"
  by (simp add: Close_def sendLine_def os_Close_def Let_def split: prod.splits)

text \<open>
  C1, as the code has it. A file read up to its end, with no failing system call, gets
  any sequence of Unicode scalar values appended in UTF-8, over any number of Read
  passes, each pass receiving its bytes in any chunks of at most 4096 bytes that end
  between codepoints. Every pass returns. The records sent, with a newline after each,
  followed by the buffered segment, are the bytes sent before followed by the bytes
  appended; every record has the file's name and no newline in its text. Close then sends
  the buffered segment as one more record if it is not empty, and leaves the buffer empty.
\<close>

theorem tail_utf8_chunks:
  assumes "fault (file f) = (\<lambda>_. None)"
    and "offset (file f) = length (contents (file f))"
    and "line_records f"
    and "\<forall>rss\<in>set passes. \<forall>rs\<in>set rss.
           rs \<noteq> [] \<and> (\<forall>r\<in>set rs. valid_rune r) \<and> length (utf8 rs) \<le> 4096"
  shows "\<exists>f' e'. tail_passes (map (map utf8) passes) f e = Some (f', e') \<and>
           line_records f' \<and>
           render (lines f') @ partial f' =
             render (lines f) @ partial f @ utf8 (concat (concat passes)) \<and>
           lines (fst (snd (Close f' e')))
             = lines f' @ (if partial f' = [] then [] else [LogLine (Name f) (partial f')]) \<and>
           partial (fst (snd (Close f' e'))) = []"
proof -
  from tail_passes_utf8 [OF assms(1,2,4), of e] assms(3)
  obtain f' e' where r: "tail_passes (map (map utf8) passes) f e = Some (f', e')"
    "render (lines f') @ partial f' =
       render (lines f) @ partial f @ utf8 (concat (concat passes))"
    "Name f' = Name f" "line_records f'"
    by auto
  with Close_flushes [of f' e'] show ?thesis
    by auto
qed

theorem tail_utf8_chunks_witness:
  "(\<exists>f' e'. tail_passes (map (map utf8) [[[104, 101, 108], [108, 111, 10, 119, 233]]]) file0 env0
              = Some (f', e') \<and>
      line_records f' \<and>
      render (lines f') @ partial f' =
        render (lines file0) @ partial file0
          @ utf8 (concat (concat [[[104, 101, 108], [108, 111, 10, 119, 233]]])) \<and>
      lines (fst (snd (Close f' e')))
        = lines f' @ (if partial f' = [] then [] else [LogLine (Name file0) (partial f')]) \<and>
      partial (fst (snd (Close f' e'))) = []) \<and>
   utf8 (concat (concat [[[104, 101, 108], [108, 111, 10, 119, 233]]]))
     = [0x68, 0x65, 0x6C, 0x6C, 0x6F, 0x0A, 0x77, 0xC3, 0xA9] \<and>
   emitted (tail_passes (map (map utf8) [[[104, 101, 108], [108, 111, 10, 119, 233]]]) file0 env0)
     = Some [LogLine ''a.log'' [0x68, 0x65, 0x6C, 0x6C, 0x6F]]"
proof -
  have h1: "fault (file file0) = (\<lambda>_. None)"
    by (simp add: file0_def fd0_def)
  have h2: "offset (file file0) = length (contents (file file0))"
    by (simp add: file0_def fd0_def)
  have h3: "line_records file0"
    by (simp add: line_records_def file0_def)
  have h4: "\<forall>rss\<in>set [[[104, 101, 108], [108, 111, 10, 119, 233]]]. \<forall>rs\<in>set rss.
           rs \<noteq> [] \<and> (\<forall>r\<in>set rs. valid_rune r) \<and> length (utf8 rs) \<le> 4096"
    by (simp add: valid_rune_def utf8_def EncodeRune_def)
  have bytes: "utf8 (concat (concat [[[104, 101, 108], [108, 111, 10, 119, 233]]]))
     = [0x68, 0x65, 0x6C, 0x6C, 0x6F, 0x0A, 0x77, 0xC3, 0xA9]"
    by (simp add: utf8_def EncodeRune_def)
  have run: "emitted (tail_passes (map (map utf8) [[[104, 101, 108], [108, 111, 10, 119, 233]]])
                file0 env0)
     = Some [LogLine ''a.log'' [0x68, 0x65, 0x6C, 0x6C, 0x6F]]"
    by (simp add: utf8_def file_defs Read_loop.simps decode_from.simps DecodeRune.simps)
  from tail_utf8_chunks [OF h1 h2 h3 h4, of env0] bytes run show ?thesis
    by blast
qed

text \<open>
  C1, as the claim has it, fails. The file gets \<^verbatim>\<open>C3 A9 0A\<close> (the letter e with an
  acute accent, then a newline) and the reader receives \<^verbatim>\<open>C3\<close> in one chunk and
  \<^verbatim>\<open>A9 0A\<close> in the next: each chunk is decoded on its own, and the record sent holds
  two U+FFFD replacement characters. A byte that is not UTF-8 at all (\<^verbatim>\<open>FF\<close>) is
  replaced in the same way without any split.
\<close>

theorem split_codepoint_counterexample:
  "emitted (tail_passes [[[0xC3], [0xA9, 0x0A]]] file0 env0)
     = Some [LogLine ''a.log'' [0xEF, 0xBF, 0xBD, 0xEF, 0xBF, 0xBD]] \<and>
   render [LogLine ''a.log'' [0xEF, 0xBF, 0xBD, 0xEF, 0xBF, 0xBD]] \<noteq> [0xC3, 0xA9, 0x0A] \<and>
   emitted (tail_passes [[[0xFF, 0x0A]]] file0 env0)
     = Some [LogLine ''a.log'' [0xEF, 0xBF, 0xBD]] \<and>
   render [LogLine ''a.log'' [0xEF, 0xBF, 0xBD]] \<noteq> [0xFF, 0x0A]"
  by (simp add: file_defs render_def Read_loop.simps decode_from.simps DecodeRune.simps)

end
